theory Spec2Isabelle
  imports Main "HOL-Library.Word"
begin

unbundle bit_operations_syntax

section \<open>Bytes, slices and keys\<close>

text \<open>
  A Go \<^verbatim>\<open>[]byte\<close> is either \<^verbatim>\<open>nil\<close> or a (possibly empty) sequence of bytes;
  \<^verbatim>\<open>type LexKey []byte\<close>. \<open>None\<close> is the nil slice, \<open>Some []\<close> the empty one.
\<close>

type_synonym byte = "8 word"
type_synonym LexKey = "byte list option"

text \<open>The two constants of \<^verbatim>\<open>lexkey.go\<close> (the spelling is the source's).\<close>

definition Seperator :: byte where
  "Seperator = 0x00"

definition EndMarker :: byte where
  "EndMarker = 0xFF"

fun elems :: "LexKey \<Rightarrow> byte list" where
  "elems None = []"
| "elems (Some xs) = xs"

text \<open>\<^verbatim>\<open>len(k)\<close>: the length of a nil slice is 0.\<close>

definition go_len :: "LexKey \<Rightarrow> nat" where
  "go_len k = length (elems k)"

text \<open>\<^verbatim>\<open>make([]byte, n)\<close>: a fresh, non-nil slice of \<open>n\<close> zero bytes.\<close>

definition make_bytes :: "nat \<Rightarrow> byte list" where
  "make_bytes n = replicate n 0"

text \<open>
  \<^verbatim>\<open>append(s, xs...)\<close>: appending nothing to a nil slice leaves it nil; otherwise
  the result is a non-nil slice.
\<close>

definition go_append :: "LexKey \<Rightarrow> byte list \<Rightarrow> LexKey" where
  "go_append s xs =
     (case s of
        None \<Rightarrow> (if xs = [] then None else Some xs)
      | Some ys \<Rightarrow> Some (ys @ xs))"

text \<open>
  \<^verbatim>\<open>copy(dst, src)\<close> overwrites the first \<open>min (len dst) (len src)\<close> bytes of
  \<open>dst\<close> and returns that count.
\<close>

definition go_copy :: "byte list \<Rightarrow> byte list \<Rightarrow> byte list \<times> nat" where
  "go_copy dst src =
     (take (length dst) src @ drop (length src) dst, min (length dst) (length src))"

text \<open>The runtime panics of an indexed store and of a slice expression.\<close>

datatype runtime_panic = IndexOutOfRange | SliceBoundsOutOfRange

text \<open>\<^verbatim>\<open>s[i] = v\<close>.\<close>

definition store :: "byte list \<Rightarrow> nat \<Rightarrow> byte \<Rightarrow> runtime_panic + byte list" where
  "store s i v = (if i < length s then Inr (s[i := v]) else Inl IndexOutOfRange)"

text \<open>\<^verbatim>\<open>copy(s[n:], src)\<close>: the copy writes through the sub-slice into \<open>s\<close>.\<close>

definition copy_from :: "byte list \<Rightarrow> nat \<Rightarrow> byte list \<Rightarrow> runtime_panic + byte list" where
  "copy_from s n src =
     (if n \<le> length s then Inr (take n s @ fst (go_copy (drop n s) src))
      else Inl SliceBoundsOutOfRange)"

text \<open>\<^verbatim>\<open>[]byte(str)\<close>: a Go string is a sequence of bytes.\<close>

definition string_bytes :: "string \<Rightarrow> byte list" where
  "string_bytes s = map of_char s"

text \<open>
  Plain byte-wise lexicographic comparison, as \<^verbatim>\<open>bytes.Compare\<close> and Go's
  \<^verbatim>\<open>string(a) < string(b)\<close> compute it: the first differing byte decides, and a
  proper prefix is smaller.
\<close>

fun bytes_less :: "byte list \<Rightarrow> byte list \<Rightarrow> bool" where
  "bytes_less [] [] = False"
| "bytes_less [] (y # ys) = True"
| "bytes_less (x # xs) [] = False"
| "bytes_less (x # xs) (y # ys) = (x < y \<or> (x = y \<and> bytes_less xs ys))"


section \<open>Big-endian stores (\<^verbatim>\<open>encoding/binary\<close>)\<close>

text \<open>
  \<^verbatim>\<open>binary.BigEndian.PutUintN(b, v)\<close> writes \<open>v\<close> into the first N/8 bytes of \<open>b\<close>,
  most significant byte first: \<^verbatim>\<open>b[0] = byte(v >> 56)\<close>, ..., \<^verbatim>\<open>b[7] = byte(v)\<close>.
  Every caller passes a buffer of exactly that many bytes.
\<close>

definition PutUint64 :: "byte list \<Rightarrow> 64 word \<Rightarrow> byte list" where
  "PutUint64 b v =
     [ucast (drop_bit 56 v), ucast (drop_bit 48 v), ucast (drop_bit 40 v),
      ucast (drop_bit 32 v), ucast (drop_bit 24 v), ucast (drop_bit 16 v),
      ucast (drop_bit 8 v), ucast v] @ drop 8 b"

definition PutUint32 :: "byte list \<Rightarrow> 32 word \<Rightarrow> byte list" where
  "PutUint32 b v =
     [ucast (drop_bit 24 v), ucast (drop_bit 16 v), ucast (drop_bit 8 v), ucast v] @ drop 4 b"

definition PutUint16 :: "byte list \<Rightarrow> 16 word \<Rightarrow> byte list" where
  "PutUint16 b v = [ucast (drop_bit 8 v), ucast v] @ drop 2 b"

section \<open>Scalar encoders\<close>

text \<open>
  A signed integer of width W is a W-bit word (\<open>sint\<close> reads its value);
  \<^verbatim>\<open>uint64(v)\<close> reinterprets the same bits.
\<close>

definition encodeInt64 :: "64 word \<Rightarrow> byte list" where
  "encodeInt64 v = (let buf = make_bytes 8 in PutUint64 buf (v XOR 0x8000000000000000))"

definition encodeInt32 :: "32 word \<Rightarrow> byte list" where
  "encodeInt32 v = (let buf = make_bytes 4 in PutUint32 buf (v XOR 0x80000000))"

definition encodeInt16 :: "16 word \<Rightarrow> byte list" where
  "encodeInt16 v = (let buf = make_bytes 2 in PutUint16 buf (v XOR 0x8000))"

definition encodeUint64 :: "64 word \<Rightarrow> byte list" where
  "encodeUint64 v = (let buf = make_bytes 8 in PutUint64 buf v)"

definition encodeUint32 :: "32 word \<Rightarrow> byte list" where
  "encodeUint32 v = (let buf = make_bytes 4 in PutUint32 buf v)"

definition encodeUint16 :: "16 word \<Rightarrow> byte list" where
  "encodeUint16 v = (let buf = make_bytes 2 in PutUint16 buf v)"

subsection \<open>Floating point\<close>

text \<open>
  A \<^verbatim>\<open>float64\<close> is its IEEE-754 binary64 bit pattern (sign bit 63, exponent bits
  62..52, fraction bits 51..0), which is what \<^verbatim>\<open>math.Float64bits\<close> returns; a
  \<^verbatim>\<open>float32\<close> is its binary32 pattern (sign bit 31, exponent 30..23).
\<close>

type_synonym float64 = "64 word"
type_synonym float32 = "32 word"

definition Float64bits :: "float64 \<Rightarrow> 64 word" where
  "Float64bits v = v"

definition Float32bits :: "float32 \<Rightarrow> 32 word" where
  "Float32bits v = v"

text \<open>\<^verbatim>\<open>math.IsNaN\<close>: the exponent is all ones and the fraction is not zero.\<close>

definition IsNaN64 :: "float64 \<Rightarrow> bool" where
  "IsNaN64 v = (0x7FF0000000000000 < (v AND 0x7FFFFFFFFFFFFFFF))"

text \<open>\<^verbatim>\<open>math.IsNaN(float64(v))\<close>: widening keeps a NaN a NaN and nothing else.\<close>

definition IsNaN32 :: "float32 \<Rightarrow> bool" where
  "IsNaN32 v = (0x7F800000 < (v AND 0x7FFFFFFF))"

text \<open>
  The numeric order of IEEE-754 values that are not NaN is the order of their
  sign-magnitude readings: the magnitude grows with the 63 (31) low bits, subnormals
  and infinity included, and both zeros read 0. Go's \<^verbatim>\<open><\<close> is false when an operand is
  NaN.
\<close>

definition float64_num :: "float64 \<Rightarrow> int" where
  "float64_num v =
     (if bit v 63 then - uint (v AND 0x7FFFFFFFFFFFFFFF) else uint v)"

definition float64_less :: "float64 \<Rightarrow> float64 \<Rightarrow> bool" where
  "float64_less a b = (\<not> IsNaN64 a \<and> \<not> IsNaN64 b \<and> float64_num a < float64_num b)"

definition float32_num :: "float32 \<Rightarrow> int" where
  "float32_num v = (if bit v 31 then - uint (v AND 0x7FFFFFFF) else uint v)"

definition float32_less :: "float32 \<Rightarrow> float32 \<Rightarrow> bool" where
  "float32_less a b = (\<not> IsNaN32 a \<and> \<not> IsNaN32 b \<and> float32_num a < float32_num b)"

definition encodeFloat64 :: "float64 \<Rightarrow> byte list" where
  "encodeFloat64 v =
     (let buf = make_bytes 8 in
      if IsNaN64 v then PutUint64 buf 0x7FF8000000000001
      else
        (let bits = Float64bits v;
             bits = (if float64_less v 0 then NOT bits else bits XOR push_bit 63 1)
         in PutUint64 buf bits))"

definition encodeFloat32 :: "float32 \<Rightarrow> byte list" where
  "encodeFloat32 v =
     (let buf = make_bytes 4 in
      if IsNaN32 v then PutUint32 buf 0x7FC00001
      else
        (let bits = Float32bits v;
             bits = (if float32_less v 0 then NOT bits else bits XOR push_bit 31 1)
         in PutUint32 buf bits))"

section \<open>The type switch of \<^verbatim>\<open>encodeToBytes\<close>\<close>

text \<open>
  A part is a value of Go's \<^verbatim>\<open>any\<close>: one constructor per arm of the type switch, and
  \<open>POther\<close> for a value of any other dynamic type, carrying the type's name as
  \<^verbatim>\<open>%T\<close> prints it. The platform \<^verbatim>\<open>int\<close> is taken at 64 bits, so \<^verbatim>\<open>int64(v)\<close> keeps
  it. A \<^verbatim>\<open>time.Time\<close> is the instant's nanoseconds since the Unix epoch, which
  \<^verbatim>\<open>UnixNano\<close> returns in 64-bit arithmetic. A \<^verbatim>\<open>uuid.UUID\<close> is a \<^verbatim>\<open>[16]byte\<close>.
\<close>

datatype part =
    PString string
  | PUUID "byte list"
  | PBytes LexKey
  | PInt "64 word"
  | PInt64 "64 word"
  | PInt32 "32 word"
  | PInt16 "16 word"
  | PUint64 "64 word"
  | PUint32 "32 word"
  | PUint16 "16 word"
  | PUint8 byte
  | PFloat64 float64
  | PFloat32 float32
  | PBool bool
  | PTime int
  | PDuration "64 word"
  | PNil
  | PEmptyStruct
  | POther string

datatype error = EmptyKeys | UnsupportedKeyType string

text \<open>The messages of \<^verbatim>\<open>errors.New\<close> and \<^verbatim>\<open>fmt.Errorf\<close>.\<close>

fun error_text :: "error \<Rightarrow> string" where
  "error_text EmptyKeys = ''empty keys are not allowed''"
| "error_text (UnsupportedKeyType t) = ''unsupported key type: '' @ t"

definition UnixNano :: "int \<Rightarrow> 64 word" where
  "UnixNano t = word_of_int t"

fun encodeToBytes :: "part \<Rightarrow> LexKey \<times> error option" where
  "encodeToBytes (PString v) = (Some (string_bytes v), None)"
| "encodeToBytes (PUUID v) = (Some v, None)"
| "encodeToBytes (PBytes v) = (v, None)"
| "encodeToBytes (PInt v) = (Some (encodeInt64 v), None)"
| "encodeToBytes (PInt64 v) = (Some (encodeInt64 v), None)"
| "encodeToBytes (PInt32 v) = (Some (encodeInt32 v), None)"
| "encodeToBytes (PInt16 v) = (Some (encodeInt16 v), None)"
| "encodeToBytes (PUint64 v) = (Some (encodeUint64 v), None)"
| "encodeToBytes (PUint32 v) = (Some (encodeUint32 v), None)"
| "encodeToBytes (PUint16 v) = (Some (encodeUint16 v), None)"
| "encodeToBytes (PUint8 v) = (Some [v], None)"
| "encodeToBytes (PFloat64 v) = (Some (encodeFloat64 v), None)"
| "encodeToBytes (PFloat32 v) = (Some (encodeFloat32 v), None)"
| "encodeToBytes (PBool v) = (if v then (Some [1], None) else (Some [0], None))"
| "encodeToBytes (PTime v) = (Some (encodeInt64 (UnixNano v)), None)"
| "encodeToBytes (PDuration v) = (Some (encodeInt64 v), None)"
| "encodeToBytes PNil = (Some [0x00], None)"
| "encodeToBytes PEmptyStruct = (Some [0xFF], None)"
| "encodeToBytes (POther t) = (None, Some (UnsupportedKeyType t))"

text \<open>
  The supported kinds as the data model lists them: text, bytes, UUID, boolean, signed
  integers (16/32/64-bit and platform), unsigned integers (8/16/32/64-bit), both float
  widths, instant, interval and the absent value.
\<close>

fun supported_kind :: "part \<Rightarrow> bool" where
  "supported_kind PEmptyStruct = False"
| "supported_kind (POther t) = False"
| "supported_kind p = True"

section \<open>Key Builder\<close>

text \<open>
  The loop of \<^verbatim>\<open>NewLexKey\<close>: \<open>n\<close> is \<^verbatim>\<open>len(parts)\<close>, \<open>i\<close> the index of the part at
  the head of the remaining list, \<open>result\<close> the slice built so far.
\<close>

fun NewLexKey_loop :: "nat \<Rightarrow> nat \<Rightarrow> LexKey \<Rightarrow> part list \<Rightarrow> LexKey \<times> error option" where
  "NewLexKey_loop n i result [] = (result, None)"
| "NewLexKey_loop n i result (p # rest) =
     (case encodeToBytes p of
        (encoded, Some err) \<Rightarrow> (None, Some err)
      | (encoded, None) \<Rightarrow>
          (let result = go_append result (elems encoded);
               result = (if int i < int n - 1 then go_append result [Seperator] else result)
           in NewLexKey_loop n (Suc i) result rest))"

definition NewLexKey :: "part list \<Rightarrow> LexKey \<times> error option" where
  "NewLexKey parts =
     (if length parts = 0 then (None, Some EmptyKeys)
      else NewLexKey_loop (length parts) 0 None parts)"

section \<open>Composite Key\<close>

record PrimaryKey =
  PartitionKey :: LexKey
  RowKey :: LexKey

text \<open>
  \<^verbatim>\<open>NewPrimaryKey\<close> of \<^verbatim>\<open>primary_key.go\<close> returns a \<^verbatim>\<open>PrimaryKey\<close> only; on a nil
  argument it writes one record to the default \<^verbatim>\<open>slog\<close> logger (the list of messages
  threaded through) and returns the zero value \<^verbatim>\<open>PrimaryKey{}\<close>.
\<close>

definition NewPrimaryKey :: "LexKey \<Rightarrow> LexKey \<Rightarrow> string list \<Rightarrow> PrimaryKey \<times> string list" where
  "NewPrimaryKey partitionKey rowKey log =
     (if partitionKey = None \<or> rowKey = None
      then (\<lparr>PartitionKey = None, RowKey = None\<rparr>,
            log @ [''partitionKey and rowKey cannot be nil''])
      else (\<lparr>PartitionKey = partitionKey, RowKey = rowKey\<rparr>, log))"

text \<open>
  The single-file version of the package declares
  \<^verbatim>\<open>func NewPrimaryKey(partitionKey, rowKey LexKey) (PrimaryKey, error)\<close> instead.
\<close>

definition NewPrimaryKey_E :: "LexKey \<Rightarrow> LexKey \<Rightarrow> PrimaryKey \<times> string option" where
  "NewPrimaryKey_E partitionKey rowKey =
     (if partitionKey = None \<or> rowKey = None
      then (\<lparr>PartitionKey = None, RowKey = None\<rparr>,
            Some ''partitionKey and rowKey cannot be nil'')
      else (\<lparr>PartitionKey = partitionKey, RowKey = rowKey\<rparr>, None))"

text \<open>\<^verbatim>\<open>func (pk PrimaryKey) Encode() LexKey\<close>.\<close>

definition PrimaryKey_Encode :: "PrimaryKey \<Rightarrow> runtime_panic + byte list" where
  "PrimaryKey_Encode pk =
     (let result = make_bytes (go_len (PartitionKey pk) + go_len (RowKey pk) + 1);
          (result, n) = go_copy result (elems (PartitionKey pk))
      in case store result n Seperator of
           Inl e \<Rightarrow> Inl e
         | Inr result \<Rightarrow> copy_from result (n + 1) (elems (RowKey pk)))"

section \<open>Range Boundary Builder\<close>

record RangeKey =
  rk_PartitionKey :: LexKey
  StartRowKey :: LexKey
  EndRowKey :: LexKey

definition ternary :: "bool \<Rightarrow> byte \<Rightarrow> byte \<Rightarrow> byte" where
  "ternary cond a b = (if cond then a else b)"

definition encodeBoundary :: "LexKey \<Rightarrow> LexKey \<Rightarrow> bool \<Rightarrow> bool \<Rightarrow> runtime_panic + byte list" where
  "encodeBoundary partitionKey rowKey isUpper withPartitionKey =
     (let size = (if withPartitionKey then go_len partitionKey else 0);
          size = (if go_len rowKey > 0
                  then (let size = size + (1 + go_len rowKey)
                        in if isUpper then size + 1 else size)
                  else size + 1);
          result = make_bytes size;
          n = 0;
          (result, n) = (if withPartitionKey
                         then (let (r, c) = go_copy result (elems partitionKey) in (r, n + c))
                         else (result, n))
      in if go_len rowKey = 0
         then store result n (ternary isUpper EndMarker Seperator)
         else
           (case store result n Seperator of
              Inl e \<Rightarrow> Inl e
            | Inr result \<Rightarrow>
                (let n = n + 1 in
                 case copy_from result n (elems rowKey) of
                   Inl e \<Rightarrow> Inl e
                 | Inr result \<Rightarrow>
                     if isUpper
                     then (if length result = 0 then Inl IndexOutOfRange
                           else store result (length result - 1) EndMarker)
                     else Inr result)))"

text \<open>\<^verbatim>\<open>func (rk RangeKey) Encode(withPartitionKey bool) (lower, upper LexKey)\<close>.\<close>

definition RangeKey_Encode ::
    "RangeKey \<Rightarrow> bool \<Rightarrow> (runtime_panic + byte list) \<times> (runtime_panic + byte list)" where
  "RangeKey_Encode rk withPartitionKey =
     (let lower = encodeBoundary (rk_PartitionKey rk) (StartRowKey rk) False withPartitionKey;
          upper = encodeBoundary (rk_PartitionKey rk) (EndRowKey rk) True withPartitionKey
      in (lower, upper))"

text \<open>The name of a part's dynamic type, as the verb \<^verbatim>\<open>%T\<close> prints it.\<close>

fun type_name :: "part \<Rightarrow> string" where
  "type_name (PString v) = ''string''"
| "type_name (PUUID v) = ''uuid.UUID''"
| "type_name (PBytes v) = ''[]uint8''"
| "type_name (PInt v) = ''int''"
| "type_name (PInt64 v) = ''int64''"
| "type_name (PInt32 v) = ''int32''"
| "type_name (PInt16 v) = ''int16''"
| "type_name (PUint64 v) = ''uint64''"
| "type_name (PUint32 v) = ''uint32''"
| "type_name (PUint16 v) = ''uint16''"
| "type_name (PUint8 v) = ''uint8''"
| "type_name (PFloat64 v) = ''float64''"
| "type_name (PFloat32 v) = ''float32''"
| "type_name (PBool v) = ''bool''"
| "type_name (PTime v) = ''time.Time''"
| "type_name (PDuration v) = ''time.Duration''"
| "type_name PNil = ''<nil>''"
| "type_name PEmptyStruct = ''struct {}''"
| "type_name (POther t) = t"

section \<open>Auxiliary: big-endian digits of a number\<close>

text \<open>
  \<open>be_nat k n\<close> is the list of the \<open>k\<close> low base-256 digits of \<open>n\<close>, most significant
  first; the big-endian stores are instances of it.
\<close>

fun be_nat :: "nat \<Rightarrow> nat \<Rightarrow> byte list" where
  "be_nat 0 n = []"
| "be_nat (Suc k) n = be_nat k (n div 256) @ [of_nat (n mod 256)]"

section \<open>Slices: what the buffer operations compute\<close>

lemma length_make_bytes: "length (make_bytes n) = n"
  by (simp add: make_bytes_def)

lemma make_bytes_0: "make_bytes 0 = []"
  by (simp add: make_bytes_def)

lemma go_copy_make:
  "length src \<le> n \<Longrightarrow> go_copy (make_bytes n) src = (src @ make_bytes (n - length src), length src)"
  by (simp add: go_copy_def make_bytes_def min_def)

lemma store_after:
  "store (p @ make_bytes (Suc k)) (length p) v = Inr (p @ v # make_bytes k)"
  by (simp add: store_def make_bytes_def list_update_append)

lemma store_first:
  "store (make_bytes (Suc k)) 0 v = Inr (v # make_bytes k)"
  using store_after [of "[]" k v] by simp

lemma copy_from_tail:
  "length src \<le> k \<Longrightarrow>
   copy_from (p @ x # make_bytes k) (Suc (length p)) src = Inr (p @ x # src @ make_bytes (k - length src))"
  by (simp add: copy_from_def go_copy_make)

lemma copy_from_tail0:
  "length src \<le> k \<Longrightarrow>
   copy_from (x # make_bytes k) (Suc 0) src = Inr (x # src @ make_bytes (k - length src))"
  using copy_from_tail [of src k "[]" x] by simp

lemma store_last:
  "s \<noteq> [] \<Longrightarrow> store s (length s - Suc 0) v = Inr (butlast s @ [v])"
proof -
  assume "s \<noteq> []"
  then obtain t x where s: "s = t @ [x]" by (metis append_butlast_last_id)
  show ?thesis by (simp add: s store_def)
qed

lemma PrimaryKey_Encode_eq:
  "PrimaryKey_Encode pk = Inr (elems (PartitionKey pk) @ [Seperator] @ elems (RowKey pk))"
  by (simp add: PrimaryKey_Encode_def go_len_def go_copy_make store_after copy_from_tail make_bytes_0)

lemma encodeBoundary_eq:
  "encodeBoundary partitionKey rowKey isUpper withPartitionKey =
     Inr ((if withPartitionKey then elems partitionKey else []) @
          (if elems rowKey = [] then [if isUpper then EndMarker else Seperator]
           else Seperator # elems rowKey @ (if isUpper then [EndMarker] else [])))"
proof (cases "elems rowKey = []")
  case True
  then show ?thesis
    by (simp add: encodeBoundary_def go_len_def go_copy_make ternary_def make_bytes_0
        store_after store_first)
next
  case False
  then show ?thesis
    apply (simp add: encodeBoundary_def go_len_def go_copy_make make_bytes_0 length_make_bytes
        store_after store_first copy_from_tail copy_from_tail0 make_bytes_def [of "Suc 0"])
    apply (simp add: store_def list_update_append)
    done
qed

section \<open>The type switch and the key builder\<close>

lemma encodeToBytes_error_iff:
  "snd (encodeToBytes p) \<noteq> None \<longleftrightarrow> \<not> supported_kind p \<and> p \<noteq> PEmptyStruct"
  by (cases p) simp_all

lemma encodeToBytes_unsupported:
  "\<not> supported_kind p \<Longrightarrow> p \<noteq> PEmptyStruct \<Longrightarrow> encodeToBytes p = (None, Some (UnsupportedKeyType (type_name p)))"
  by (cases p) simp_all

lemma encodeToBytes_cases:
  "(\<exists>k. encodeToBytes p = (k, None)) \<or> (\<exists>t. p = POther t \<and> encodeToBytes p = (None, Some (UnsupportedKeyType t)))"
  by (cases p) simp_all

lemma NewLexKey_loop_error:
  "snd (NewLexKey_loop n i result parts) = Some e \<Longrightarrow>
   fst (NewLexKey_loop n i result parts) = None \<and> (\<exists>t. POther t \<in> set parts \<and> e = UnsupportedKeyType t)"
proof (induction parts arbitrary: i result)
  case Nil
  then show ?case by simp
next
  case (Cons p rest)
  from encodeToBytes_cases [of p] show ?case
  proof
    assume "\<exists>k. encodeToBytes p = (k, None)"
    then obtain k where k: "encodeToBytes p = (k, None)" ..
    with Cons.prems Cons.IH show ?thesis
      by (fastforce simp: Let_def)
  next
    assume "\<exists>t. p = POther t \<and> encodeToBytes p = (None, Some (UnsupportedKeyType t))"
    with Cons.prems show ?thesis by auto
  qed
qed

lemma NewLexKey_loop_unsupported:
  "POther t \<in> set parts \<Longrightarrow>
   \<exists>u. POther u \<in> set parts \<and> NewLexKey_loop n i result parts = (None, Some (UnsupportedKeyType u))"
proof (induction parts arbitrary: i result)
  case Nil
  then show ?case by simp
next
  case (Cons p rest)
  from encodeToBytes_cases [of p] show ?case
  proof
    assume "\<exists>k. encodeToBytes p = (k, None)"
    then obtain k where k: "encodeToBytes p = (k, None)" ..
    then have "p \<noteq> POther t" by auto
    with Cons.prems have "POther t \<in> set rest" by simp
    from Cons.IH [OF this] k show ?thesis
      by (simp add: Let_def) blast
  next
    assume "\<exists>t. p = POther t \<and> encodeToBytes p = (None, Some (UnsupportedKeyType t))"
    then show ?thesis by auto
  qed
qed

text \<open>
  C10. The scalar encoding is not injective across kinds: \<^verbatim>\<open>NewLexKey(nil)\<close> and
  \<^verbatim>\<open>NewLexKey(false)\<close> both succeed with the same one-byte key, and that byte is
  the separator.
\<close>

theorem NewLexKey_nil_false_collide:
  "NewLexKey [PNil] = (Some [0x00], None) \<and>
   NewLexKey [PBool False] = (Some [0x00], None) \<and>
   NewLexKey [PNil] = NewLexKey [PBool False] \<and>
   Seperator = 0x00"
  by (simp add: NewLexKey_def go_append_def Seperator_def)

text \<open>
  C9. With zero parts \<^verbatim>\<open>NewLexKey\<close> fails with the empty-input error; and whenever
  it returns an error, the key returned with it is nil, the error being the empty-input
  one (no parts) or the unsupported-type one of a part of the input.
\<close>

theorem NewLexKey_error_returns_nil_key:
  "NewLexKey [] = (None, Some EmptyKeys) \<and>
   (snd (NewLexKey parts) = Some e \<longrightarrow>
      fst (NewLexKey parts) = None \<and>
      ((parts = [] \<and> e = EmptyKeys) \<or>
       (\<exists>t. POther t \<in> set parts \<and> e = UnsupportedKeyType t)))"
proof (cases "parts = []")
  case True
  then show ?thesis by (auto simp: NewLexKey_def)
next
  case False
  then show ?thesis
    using NewLexKey_loop_error [of "length parts" 0 None parts e]
    by (auto simp: NewLexKey_def)
qed

theorem NewLexKey_error_returns_nil_key_witness:
  "snd (NewLexKey [PString ''a'', POther ''chan int'']) = Some (UnsupportedKeyType ''chan int'') \<and>
   fst (NewLexKey [PString ''a'', POther ''chan int'']) = None"
  using NewLexKey_error_returns_nil_key
    [of "[PString ''a'', POther ''chan int'']" "UnsupportedKeyType ''chan int''"]
  by (simp add: NewLexKey_def go_append_def)

text \<open>
  C4, as the code has it. The empty struct is outside the supported set of the data
  model and still has an encoding of its own, the single byte 0xFF.
\<close>

theorem encodeToBytes_empty_struct_encoded:
  "\<not> supported_kind PEmptyStruct \<and>
   encodeToBytes PEmptyStruct = (Some [0xFF], None) \<and>
   NewLexKey [PEmptyStruct] = (Some [0xFF], None)"
  by (simp add: NewLexKey_def go_append_def)

text \<open>
  C4, amended. \<^verbatim>\<open>encodeToBytes\<close> returns an error exactly for the parts whose kind is
  neither in the supported set nor the empty struct; the error is the unsupported-type
  error naming the part's dynamic type; \<^verbatim>\<open>NewLexKey\<close> given such a part anywhere in
  its input fails with the unsupported-type error of such a part of the input and a nil
  key; the empty struct is encoded as the byte 0xFF.
\<close>

theorem encodeToBytes_unsupported_type:
  "(snd (encodeToBytes p) \<noteq> None \<longleftrightarrow> \<not> supported_kind p \<and> p \<noteq> PEmptyStruct) \<and>
   (\<not> supported_kind p \<and> p \<noteq> PEmptyStruct \<longrightarrow>
      encodeToBytes p = (None, Some (UnsupportedKeyType (type_name p)))) \<and>
   (q \<in> set parts \<and> \<not> supported_kind q \<and> q \<noteq> PEmptyStruct \<longrightarrow>
      (\<exists>r. r \<in> set parts \<and> \<not> supported_kind r \<and> r \<noteq> PEmptyStruct \<and>
           NewLexKey parts = (None, Some (UnsupportedKeyType (type_name r))))) \<and>
   encodeToBytes PEmptyStruct = (Some [0xFF], None)"
proof -
  have "\<exists>r. r \<in> set parts \<and> \<not> supported_kind r \<and> r \<noteq> PEmptyStruct \<and>
           NewLexKey parts = (None, Some (UnsupportedKeyType (type_name r)))"
    if q: "q \<in> set parts" "\<not> supported_kind q" "q \<noteq> PEmptyStruct"
  proof -
    from q(2,3) obtain t where t: "q = POther t" by (cases q) simp_all
    from q(1) have ne: "parts \<noteq> []" by auto
    from q(1) t have "POther t \<in> set parts" by simp
    from NewLexKey_loop_unsupported [OF this, of "length parts" 0 None]
    obtain u where u: "POther u \<in> set parts"
      "NewLexKey_loop (length parts) 0 None parts = (None, Some (UnsupportedKeyType u))"
      by blast
    from u ne have "POther u \<in> set parts \<and> \<not> supported_kind (POther u) \<and>
      POther u \<noteq> PEmptyStruct \<and>
      NewLexKey parts = (None, Some (UnsupportedKeyType (type_name (POther u))))"
      by (simp add: NewLexKey_def)
    then show ?thesis by blast
  qed
  then show ?thesis
    using encodeToBytes_error_iff [of p] encodeToBytes_unsupported [of p] by simp
qed

theorem encodeToBytes_unsupported_type_witness:
  "encodeToBytes (POther ''chan int'') = (None, Some (UnsupportedKeyType ''chan int'')) \<and>
   snd (encodeToBytes (POther ''chan int'')) \<noteq> None \<and>
   NewLexKey [PString ''a'', POther ''chan int''] = (None, Some (UnsupportedKeyType ''chan int''))"
  using encodeToBytes_unsupported_type
    [of "POther ''chan int''" "POther ''chan int''" "[PString ''a'', POther ''chan int'']"]
  by (simp add: NewLexKey_def go_append_def)

section \<open>Composite keys and range boundaries\<close>

lemma NewPrimaryKey_E_error_iff:
  "snd (NewPrimaryKey_E partitionKey rowKey) \<noteq> None \<longleftrightarrow> partitionKey = None \<or> rowKey = None"
  by (simp add: NewPrimaryKey_E_def)

lemma NewPrimaryKey_E_present:
  "NewPrimaryKey_E (Some P) (Some R) = (\<lparr>PartitionKey = Some P, RowKey = Some R\<rparr>, None) \<and>
   PrimaryKey_Encode (fst (NewPrimaryKey_E (Some P) (Some R))) = Inr (P @ [Seperator] @ R)"
  by (simp add: NewPrimaryKey_E_def PrimaryKey_Encode_eq)

lemma NewPrimaryKey_present:
  "NewPrimaryKey (Some P) (Some R) log = (\<lparr>PartitionKey = Some P, RowKey = Some R\<rparr>, log) \<and>
   PrimaryKey_Encode (fst (NewPrimaryKey (Some P) (Some R) log)) = Inr (P @ [Seperator] @ R)"
  by (simp add: NewPrimaryKey_def PrimaryKey_Encode_eq)

text \<open>
  C5, at the failing input. \<^verbatim>\<open>NewPrimaryKey\<close> of \<^verbatim>\<open>primary_key.go\<close>, given a nil row
  key, returns the zero \<^verbatim>\<open>PrimaryKey\<close> and no error value: the message goes to the
  log only, and the key returned encodes to the single separator byte.
\<close>

theorem NewPrimaryKey_nil_row_no_error:
  "NewPrimaryKey (Some (string_bytes ''partition'')) None [] =
     (\<lparr>PartitionKey = None, RowKey = None\<rparr>, [''partitionKey and rowKey cannot be nil'']) \<and>
   PrimaryKey_Encode (fst (NewPrimaryKey (Some (string_bytes ''partition'')) None [])) = Inr [0x00]"
  by (simp add: NewPrimaryKey_def PrimaryKey_Encode_eq Seperator_def)

text \<open>
  C8. The two literal boundary vectors: partition "part" with rows "start" and "end",
  and partition "partition" with both rows absent.
\<close>

theorem RangeKey_Encode_vectors:
  "RangeKey_Encode \<lparr>rk_PartitionKey = Some (string_bytes ''part''),
                    StartRowKey = Some (string_bytes ''start''),
                    EndRowKey = Some (string_bytes ''end'')\<rparr> True =
     (Inr (string_bytes ''part'' @ [0x00] @ string_bytes ''start''),
      Inr (string_bytes ''part'' @ [0x00] @ string_bytes ''end'' @ [0xFF])) \<and>
   RangeKey_Encode \<lparr>rk_PartitionKey = Some (string_bytes ''partition''),
                    StartRowKey = None, EndRowKey = None\<rparr> True =
     (Inr (string_bytes ''partition'' @ [0x00]), Inr (string_bytes ''partition'' @ [0xFF]))"
  by (simp add: RangeKey_Encode_def encodeBoundary_eq string_bytes_def Seperator_def EndMarker_def)

section \<open>Byte order of the big-endian stores\<close>

lemma length_be_nat: "length (be_nat k n) = k"
  by (induction k arbitrary: n) auto

lemma bytes_less_snoc:
  "length xs = length ys \<Longrightarrow>
   bytes_less (xs @ [a]) (ys @ [b]) \<longleftrightarrow> bytes_less xs ys \<or> (xs = ys \<and> a < b)"
  by (induction xs ys rule: list_induct2) auto

lemma byte_of_nat_less: "a < 256 \<Longrightarrow> b < 256 \<Longrightarrow> (of_nat a :: byte) < of_nat b \<longleftrightarrow> a < b"
  by (simp add: of_nat_word_less_iff take_bit_nat_eq_self)

lemma byte_of_nat_eq: "a < 256 \<Longrightarrow> b < 256 \<Longrightarrow> (of_nat a :: byte) = of_nat b \<longleftrightarrow> a = b"
  by (simp add: word_of_nat_eq_iff take_bit_nat_eq_self)

lemma lex_step:
  fixes a b c d :: nat
  assumes "c < 256" "d < 256"
  shows "256 * a + c < 256 * b + d \<longleftrightarrow> a < b \<or> (a = b \<and> c < d)"
  using assms by linarith

lemma eq_step:
  fixes a b c d :: nat
  assumes "c < 256" "d < 256"
  shows "256 * a + c = 256 * b + d \<longleftrightarrow> a = b \<and> c = d"
proof -
  have "256 * a + c = 256 * b + d \<longleftrightarrow>
        \<not> 256 * a + c < 256 * b + d \<and> \<not> 256 * b + d < 256 * a + c"
    using nat_neq_iff [of "256 * a + c" "256 * b + d"] by blast
  also have "\<dots> \<longleftrightarrow> \<not> (a < b \<or> (a = b \<and> c < d)) \<and> \<not> (b < a \<or> (b = a \<and> d < c))"
    by (simp only: lex_step [OF assms] lex_step [OF assms(2) assms(1)])
  also have "\<dots> \<longleftrightarrow> a = b \<and> c = d"
    by auto
  finally show ?thesis .
qed

lemma nat_less_divmod:
  "(n::nat) < m \<longleftrightarrow> n div 256 < m div 256 \<or> (n div 256 = m div 256 \<and> n mod 256 < m mod 256)"
proof -
  have "n < m \<longleftrightarrow> 256 * (n div 256) + n mod 256 < 256 * (m div 256) + m mod 256"
    by simp
  also have "\<dots> \<longleftrightarrow> n div 256 < m div 256 \<or> (n div 256 = m div 256 \<and> n mod 256 < m mod 256)"
    by (rule lex_step) simp_all
  finally show ?thesis .
qed

lemma be_nat_eq: "be_nat k n = be_nat k m \<longleftrightarrow> n mod 256 ^ k = m mod 256 ^ k"
proof (induction k arbitrary: n m)
  case 0
  then show ?case by simp
next
  case (Suc k)
  have "be_nat (Suc k) n = be_nat (Suc k) m \<longleftrightarrow>
        be_nat k (n div 256) = be_nat k (m div 256) \<and> n mod 256 = m mod 256"
    by (simp add: byte_of_nat_eq)
  also have "\<dots> \<longleftrightarrow> (n div 256) mod 256 ^ k = (m div 256) mod 256 ^ k \<and> n mod 256 = m mod 256"
    by (simp add: Suc.IH)
  also have "\<dots> \<longleftrightarrow> 256 * ((n div 256) mod 256 ^ k) + n mod 256 = 256 * ((m div 256) mod 256 ^ k) + m mod 256"
    by (rule eq_step [symmetric]) simp_all
  also have "\<dots> \<longleftrightarrow> n mod 256 ^ Suc k = m mod 256 ^ Suc k"
    by (simp add: mod_mult2_eq)
  finally show ?case .
qed

lemma be_nat_less:
  "n < 256 ^ k \<Longrightarrow> m < 256 ^ k \<Longrightarrow> bytes_less (be_nat k n) (be_nat k m) \<longleftrightarrow> n < m"
proof (induction k arbitrary: n m)
  case 0
  then show ?case by simp
next
  case (Suc k)
  have dn: "n div 256 < 256 ^ k" and dm: "m div 256 < 256 ^ k"
    using Suc.prems by (simp_all add: less_mult_imp_div_less mult.commute)
  have eq: "be_nat k (n div 256) = be_nat k (m div 256) \<longleftrightarrow> n div 256 = m div 256"
    using dn dm by (simp add: be_nat_eq)
  have "bytes_less (be_nat (Suc k) n) (be_nat (Suc k) m) \<longleftrightarrow>
        bytes_less (be_nat k (n div 256)) (be_nat k (m div 256)) \<or>
        (be_nat k (n div 256) = be_nat k (m div 256) \<and> n mod 256 < m mod 256)"
    by (simp add: bytes_less_snoc length_be_nat byte_of_nat_less)
  also have "\<dots> \<longleftrightarrow> n div 256 < m div 256 \<or> (n div 256 = m div 256 \<and> n mod 256 < m mod 256)"
    using Suc.IH [OF dn dm] eq by simp
  also have "\<dots> \<longleftrightarrow> n < m"
    by (rule nat_less_divmod [symmetric])
  finally show ?case .
qed

lemma byte_at: "(ucast (drop_bit k (v :: 'a::len word)) :: byte) = of_nat (unat v div 2 ^ k mod 256)"
proof -
  have "(ucast (drop_bit k v) :: byte) = of_nat (unat (drop_bit k v))" by simp
  also have "\<dots> = of_nat (unat v div 2 ^ k)"
  proof -
    have "unat (drop_bit k v) = unat v div 2 ^ k"
      unfolding unat_drop_bit_eq by (rule drop_bit_eq_div)
    then show ?thesis by (rule arg_cong)
  qed
  also have "\<dots> = of_nat (unat v div 2 ^ k mod 256)"
    by (simp add: word_of_nat_eq_iff take_bit_eq_mod)
  finally show ?thesis .
qed

lemma byte_at0: "(ucast (v :: 'a::len word) :: byte) = of_nat (unat v mod 256)"
  using byte_at [of 0 v] by simp

lemma be_nat_word_Suc:
  "be_nat (Suc k) (unat (v :: 'a::len word)) = be_nat k (unat (drop_bit 8 v)) @ [ucast v]"
proof -
  have "unat (drop_bit 8 v) = unat v div 2 ^ 8"
    unfolding unat_drop_bit_eq by (rule drop_bit_eq_div)
  then have a: "unat v div 256 = unat (drop_bit 8 v)"
    by simp
  have b: "(of_nat (unat v mod 256) :: byte) = ucast v"
    by (rule byte_at0 [symmetric])
  show ?thesis by (simp only: be_nat.simps a b)
qed

lemma PutUint64_be: "PutUint64 (replicate 8 0) v = be_nat 8 (unat v)"
proof -
  have "be_nat (Suc (Suc (Suc (Suc (Suc (Suc (Suc (Suc 0)))))))) (unat v) =
        PutUint64 (replicate 8 0) v"
    by (simp only: be_nat_word_Suc be_nat.simps(1) drop_bit_drop_bit) (simp add: PutUint64_def)
  moreover have "(8::nat) = Suc (Suc (Suc (Suc (Suc (Suc (Suc (Suc 0)))))))" by simp
  ultimately show ?thesis by (simp only:)
qed

lemma PutUint32_be: "PutUint32 (replicate 4 0) v = be_nat 4 (unat v)"
proof -
  have "be_nat (Suc (Suc (Suc (Suc 0)))) (unat v) = PutUint32 (replicate 4 0) v"
    by (simp only: be_nat_word_Suc be_nat.simps(1) drop_bit_drop_bit) (simp add: PutUint32_def)
  moreover have "(4::nat) = Suc (Suc (Suc (Suc 0)))" by simp
  ultimately show ?thesis by (simp only:)
qed

lemma PutUint16_be: "PutUint16 (replicate 2 0) v = be_nat 2 (unat v)"
proof -
  have "be_nat (Suc (Suc 0)) (unat v) = PutUint16 (replicate 2 0) v"
    by (simp only: be_nat_word_Suc be_nat.simps(1) drop_bit_drop_bit) (simp add: PutUint16_def)
  moreover have "(2::nat) = Suc (Suc 0)" by simp
  ultimately show ?thesis by (simp only:)
qed

lemma PutUint64_less: "bytes_less (PutUint64 (replicate 8 0) u) (PutUint64 (replicate 8 0) v) \<longleftrightarrow> u < v"
proof -
  have "unat u < 256 ^ 8" "unat v < 256 ^ 8"
    using unsigned_less [of u, where 'a = nat] unsigned_less [of v, where 'a = nat] by simp_all
  then show ?thesis
    by (simp only: PutUint64_be be_nat_less word_less_nat_alt)
qed

lemma PutUint32_less: "bytes_less (PutUint32 (replicate 4 0) u) (PutUint32 (replicate 4 0) v) \<longleftrightarrow> u < v"
proof -
  have "unat u < 256 ^ 4" "unat v < 256 ^ 4"
    using unsigned_less [of u, where 'a = nat] unsigned_less [of v, where 'a = nat] by simp_all
  then show ?thesis
    by (simp only: PutUint32_be be_nat_less word_less_nat_alt)
qed

lemma PutUint16_less: "bytes_less (PutUint16 (replicate 2 0) u) (PutUint16 (replicate 2 0) v) \<longleftrightarrow> u < v"
proof -
  have "unat u < 256 ^ 2" "unat v < 256 ^ 2"
    using unsigned_less [of u, where 'a = nat] unsigned_less [of v, where 'a = nat] by simp_all
  then show ?thesis
    by (simp only: PutUint16_be be_nat_less word_less_nat_alt)
qed

section \<open>Sign bit, complement and mask of a word\<close>

lemma xor_msb_add:
  fixes a :: "'a::len word"
  shows "a XOR 2 ^ (LENGTH('a) - Suc 0) = a + 2 ^ (LENGTH('a) - Suc 0)"
proof (cases "bit a (LENGTH('a) - Suc 0)")
  case False
  then have "a + 2 ^ (LENGTH('a) - Suc 0) = a XOR 2 ^ (LENGTH('a) - Suc 0)"
    by (intro disjunctive_add_eq_xor) (simp add: and_exp_eq_0_iff_not_bit)
  then show ?thesis by simp
next
  case True
  let ?m = "2 ^ (LENGTH('a) - Suc 0) :: 'a word"
  let ?b = "a XOR ?m"
  have nb: "\<not> bit ?b (LENGTH('a) - Suc 0)"
    using True by (simp add: bit_simps)
  have "?b + ?m = ?b XOR ?m"
    using nb by (intro disjunctive_add_eq_xor) (simp only: and_exp_eq_0_iff_not_bit not_False_eq_True)
  also have "\<dots> = a"
    by (simp add: xor.assoc)
  finally have b: "?b = a - ?m" by (simp add: algebra_simps)
  have mm: "?m + ?m = 0"
  proof -
    have "?m + ?m = 2 ^ Suc (LENGTH('a) - Suc 0)" by (simp only: power_Suc mult_2)
    also have "Suc (LENGTH('a) - Suc 0) = LENGTH('a)" by simp
    finally show ?thesis by (simp only: word_exp_length_eq_0)
  qed
  have "a + ?m = a - ?m + (?m + ?m)" by simp
  also have "\<dots> = a - ?m" by (simp only: mm add_0_right)
  finally show ?thesis by (simp only: b)
qed

lemma uint_xor_msb:
  fixes a :: "'a::len word"
  shows "uint (a XOR 2 ^ (LENGTH('a) - Suc 0)) = sint a + 2 ^ (LENGTH('a) - Suc 0)"
proof -
  have p: "uint (2 ^ (LENGTH('a) - Suc 0) :: 'a word) = 2 ^ (LENGTH('a) - Suc 0)"
    by (rule uint_2p) (simp add: word_neq_0_conv [symmetric])
  have "uint (a + 2 ^ (LENGTH('a) - Suc 0)) = take_bit LENGTH('a) (uint a + 2 ^ (LENGTH('a) - Suc 0))"
    by (simp add: uint_word_ariths take_bit_eq_mod p)
  moreover have "sint a = take_bit (Suc (LENGTH('a) - Suc 0)) (uint a + 2 ^ (LENGTH('a) - Suc 0)) - 2 ^ (LENGTH('a) - Suc 0)"
    by (simp only: sint_uint signed_take_bit_eq_take_bit_shift)
  ultimately show ?thesis by (simp add: xor_msb_add)
qed

lemma sless_xor_msb:
  fixes a b :: "'a::len word"
  shows "a XOR 2 ^ (LENGTH('a) - Suc 0) < b XOR 2 ^ (LENGTH('a) - Suc 0) \<longleftrightarrow> sint a < sint b"
  by (simp add: word_less_def uint_xor_msb)

lemma sless_xor_msb_64: "(a::64 word) XOR 0x8000000000000000 < b XOR 0x8000000000000000 \<longleftrightarrow> sint a < sint b"
  using sless_xor_msb [of a b] by simp
lemma sless_xor_msb_32: "(a::32 word) XOR 0x80000000 < b XOR 0x80000000 \<longleftrightarrow> sint a < sint b"
  using sless_xor_msb [of a b] by simp
lemma sless_xor_msb_16: "(a::16 word) XOR 0x8000 < b XOR 0x8000 \<longleftrightarrow> sint a < sint b"
  using sless_xor_msb [of a b] by simp

lemma sint_cases:
  fixes v :: "'a::len word"
  shows "sint v = (if uint v < 2 ^ (LENGTH('a) - Suc 0) then uint v else uint v - 2 * 2 ^ (LENGTH('a) - Suc 0))"
proof -
  let ?M = "2 ^ (LENGTH('a) - Suc 0) :: int"
  have L: "(2 :: int) ^ LENGTH('a) = 2 * ?M"
    by (metis Suc_pred len_gt_0 power_Suc)
  have p: "uint (2 ^ (LENGTH('a) - Suc 0) :: 'a word) = ?M"
    by (rule uint_2p) (simp add: word_neq_0_conv [symmetric])
  have "uint (v XOR 2 ^ (LENGTH('a) - Suc 0)) = (uint v + ?M) mod 2 ^ LENGTH('a)"
    by (simp add: xor_msb_add uint_word_ariths p)
  then have s: "sint v = (uint v + ?M) mod (2 * ?M) - ?M"
    by (simp add: uint_xor_msb L)
  have b: "0 \<le> uint v" "uint v < 2 * ?M"
    using uint_lt2p [of v] by (simp_all add: L)
  show ?thesis
  proof (cases "uint v < ?M")
    case True
    then have "(uint v + ?M) mod (2 * ?M) = uint v + ?M"
      using b by (intro mod_pos_pos_trivial) simp_all
    with s True show ?thesis by simp
  next
    case False
    have "(uint v + ?M) mod (2 * ?M) = (uint v - ?M + 2 * ?M) mod (2 * ?M)"
      by (simp add: algebra_simps)
    also have "\<dots> = (uint v - ?M) mod (2 * ?M)"
      by (rule mod_add_self2)
    also have "\<dots> = uint v - ?M"
      using False b by (intro mod_pos_pos_trivial) simp_all
    finally show ?thesis using s False by simp
  qed
qed

lemma msb_iff_uint:
  fixes v :: "'a::len word"
  shows "bit v (LENGTH('a) - Suc 0) \<longleftrightarrow> 2 ^ (LENGTH('a) - Suc 0) \<le> uint v"
proof -
  have b: "0 \<le> uint v" "uint v < 2 * 2 ^ (LENGTH('a) - Suc 0)"
    using uint_lt2p [of v] by (simp_all flip: power_Suc)
  show ?thesis
    unfolding bit_last_iff sint_cases using b by auto
qed

lemma uint_xor_msb_cases:
  fixes v :: "'a::len word"
  shows "uint (v XOR 2 ^ (LENGTH('a) - Suc 0)) =
    (if uint v < 2 ^ (LENGTH('a) - Suc 0) then uint v + 2 ^ (LENGTH('a) - Suc 0)
     else uint v - 2 ^ (LENGTH('a) - Suc 0))"
  by (simp add: uint_xor_msb sint_cases)

lemma uint_not:
  fixes v :: "'a::len word"
  shows "uint (NOT v) = 2 ^ LENGTH('a) - 1 - uint v"
proof -
  let ?N = "2 ^ LENGTH('a) :: int"
  have "uint (NOT v) = (- uint v - 1) mod ?N"
    by (simp add: unsigned_not_eq take_bit_eq_mod not_int_def)
  also have "\<dots> = (?N - 1 - uint v - ?N) mod ?N"
    by (rule arg_cong [where f = "\<lambda>x. x mod ?N"]) simp
  also have "\<dots> = (?N - 1 - uint v) mod ?N"
    by (rule minus_mod_self2)
  also have "\<dots> = ?N - 1 - uint v"
  proof (rule mod_pos_pos_trivial)
    have "0 \<le> uint v" "uint v < ?N" by simp_all
    then show "0 \<le> ?N - 1 - uint v" "?N - 1 - uint v < ?N" by linarith+
  qed
  finally show ?thesis .
qed

lemma uint_and_mask:
  fixes v :: "'a::len word"
  shows "uint (v AND mask n) = uint v mod 2 ^ n"
proof -
  have "v AND mask n = take_bit n v" by (simp add: take_bit_eq_mask)
  then have "uint (v AND mask n) = uint (take_bit n v)" by (rule arg_cong)
  also have "\<dots> = take_bit n (uint v)" by (rule unsigned_take_bit_eq)
  also have "\<dots> = uint v mod 2 ^ n" by (rule take_bit_eq_mod)
  finally show ?thesis .
qed

section \<open>Signed integers\<close>

lemma encodeInt64_less: "bytes_less (encodeInt64 a) (encodeInt64 b) \<longleftrightarrow> sint a < sint b"
  by (simp add: encodeInt64_def make_bytes_def PutUint64_less sless_xor_msb_64)

lemma encodeInt32_less: "bytes_less (encodeInt32 a) (encodeInt32 b) \<longleftrightarrow> sint a < sint b"
  by (simp add: encodeInt32_def make_bytes_def PutUint32_less sless_xor_msb_32)

lemma encodeInt16_less: "bytes_less (encodeInt16 a) (encodeInt16 b) \<longleftrightarrow> sint a < sint b"
  by (simp add: encodeInt16_def make_bytes_def PutUint16_less sless_xor_msb_16)

text \<open>
  C7. For each of the widths 64, 32 and 16, the encoding of a signed integer preserves
  the order: two integers of the same width compare as their encodings compare
  byte-wise (hence \<open>a < b\<close> gives \<open>encode a < encode b\<close>).
\<close>

theorem encodeInt_order_preserving:
  "(bytes_less (encodeInt64 a) (encodeInt64 b) \<longleftrightarrow> sint a < sint b) \<and>
   (bytes_less (encodeInt32 c) (encodeInt32 d) \<longleftrightarrow> sint c < sint d) \<and>
   (bytes_less (encodeInt16 e) (encodeInt16 f) \<longleftrightarrow> sint e < sint f)"
  by (simp only: encodeInt64_less encodeInt32_less encodeInt16_less)

theorem encodeInt_order_preserving_witness:
  "sint (- 123 :: 64 word) < sint (123 :: 64 word) \<and>
   bytes_less (encodeInt64 (- 123)) (encodeInt64 123) \<and>
   bytes_less (encodeInt32 (- 1)) (encodeInt32 0) \<and>
   bytes_less (encodeInt16 (- 32768)) (encodeInt16 32767)"
  using encodeInt_order_preserving [of "- 123" 123 "- 1" 0 "- 32768" 32767]
  by simp

subsection \<open>A 32-bit against a 64-bit integer\<close>

lemma be_nat_split: "be_nat (k + j) n = be_nat k (n div 256 ^ j) @ be_nat j n"
proof (induction j arbitrary: n)
  case 0
  then show ?case by simp
next
  case (Suc j)
  have "n div 256 div 256 ^ j = n div 256 ^ Suc j"
    by (simp add: div_mult2_eq)
  then show ?case
    using Suc.IH [of "n div 256"] by simp
qed

lemma bytes_less_shorter:
  "length xs = length ys \<Longrightarrow> zs \<noteq> [] \<Longrightarrow>
   bytes_less xs (ys @ zs) \<longleftrightarrow> bytes_less xs ys \<or> xs = ys"
proof (induction xs ys rule: list_induct2)
  case Nil
  then show ?case by (cases zs) simp_all
next
  case (Cons x xs y ys)
  then show ?case by auto
qed

lemma bytes_less_longer:
  "length xs = length ys \<Longrightarrow> bytes_less (ys @ zs) xs \<longleftrightarrow> bytes_less ys xs"
proof (induction xs ys rule: list_induct2)
  case Nil
  then show ?case by (cases zs) simp_all
next
  case (Cons x xs y ys)
  then show ?case by simp
qed

lemma be_nat_4_8:
  assumes "A < 256 ^ 4" "B < 256 ^ 8"
  shows "bytes_less (be_nat 4 A) (be_nat 8 B) \<longleftrightarrow> A * 2 ^ 32 \<le> B"
    and "bytes_less (be_nat 8 B) (be_nat 4 A) \<longleftrightarrow> B < A * 2 ^ 32"
proof -
  have s: "be_nat 8 B = be_nat 4 (B div 256 ^ 4) @ be_nat 4 B"
    using be_nat_split [of 4 4 B] by simp
  have ne: "be_nat 4 B \<noteq> []"
    using length_be_nat [of 4 B] by auto
  have d: "B div 256 ^ 4 < 256 ^ 4"
    using assms(2) by (simp add: less_mult_imp_div_less)
  have eq: "be_nat 4 A = be_nat 4 (B div 256 ^ 4) \<longleftrightarrow> A = B div 256 ^ 4"
    using assms(1) d by (simp add: be_nat_eq)
  have "bytes_less (be_nat 4 A) (be_nat 8 B) \<longleftrightarrow> A < B div 256 ^ 4 \<or> A = B div 256 ^ 4"
    by (simp only: s bytes_less_shorter [OF _ ne] length_be_nat be_nat_less [OF assms(1) d] eq)
  also have "\<dots> \<longleftrightarrow> A \<le> B div 256 ^ 4" by auto
  also have "\<dots> \<longleftrightarrow> A * 256 ^ 4 \<le> B"
    by (rule less_eq_div_iff_mult_less_eq) simp
  finally show "bytes_less (be_nat 4 A) (be_nat 8 B) \<longleftrightarrow> A * 2 ^ 32 \<le> B" by simp
  have "bytes_less (be_nat 8 B) (be_nat 4 A) \<longleftrightarrow> B div 256 ^ 4 < A"
    by (simp only: s bytes_less_longer length_be_nat be_nat_less [OF d assms(1)])
  also have "\<dots> \<longleftrightarrow> B < A * 256 ^ 4"
    by (rule div_less_iff_less_mult) simp
  finally show "bytes_less (be_nat 8 B) (be_nat 4 A) \<longleftrightarrow> B < A * 2 ^ 32" by simp
qed

lemma uint_flip32: "uint ((a :: 32 word) XOR 0x80000000) = sint a + 0x80000000"
  using uint_xor_msb [of a] by simp

lemma uint_flip64: "uint ((b :: 64 word) XOR 0x8000000000000000) = sint b + 0x8000000000000000"
  using uint_xor_msb [of b] by simp

lemma encodeInt32_vs_encodeInt64:
  "bytes_less (encodeInt32 a) (encodeInt64 b) \<longleftrightarrow> sint a * 2 ^ 32 \<le> sint b"
  "bytes_less (encodeInt64 b) (encodeInt32 a) \<longleftrightarrow> sint b < sint a * 2 ^ 32"
proof -
  let ?A = "unat (a XOR 0x80000000)" and ?B = "unat (b XOR 0x8000000000000000)"
  have e: "encodeInt32 a = be_nat 4 ?A" "encodeInt64 b = be_nat 8 ?B"
    by (simp_all add: encodeInt32_def encodeInt64_def make_bytes_def PutUint32_be PutUint64_be)
  have bd: "?A < 256 ^ 4" "?B < 256 ^ 8"
    using unsigned_less [of "a XOR 0x80000000", where 'a = nat]
      unsigned_less [of "b XOR 0x8000000000000000", where 'a = nat] by simp_all
  have iA: "int ?A = sint a + 0x80000000" and iB: "int ?B = sint b + 0x8000000000000000"
    by (simp_all add: uint_flip32 uint_flip64)
  have "bytes_less (encodeInt32 a) (encodeInt64 b) \<longleftrightarrow> ?A * 2 ^ 32 \<le> ?B"
    by (simp only: e be_nat_4_8 [OF bd])
  also have "\<dots> \<longleftrightarrow> int ?A * 2 ^ 32 \<le> int ?B"
    by (simp only: of_nat_le_iff [symmetric, where 'a = int] of_nat_mult of_nat_power of_nat_numeral)
  also have "\<dots> \<longleftrightarrow> sint a * 2 ^ 32 \<le> sint b"
    unfolding iA iB by simp
  finally show "bytes_less (encodeInt32 a) (encodeInt64 b) \<longleftrightarrow> sint a * 2 ^ 32 \<le> sint b" .
  have "bytes_less (encodeInt64 b) (encodeInt32 a) \<longleftrightarrow> ?B < ?A * 2 ^ 32"
    by (simp only: e be_nat_4_8 [OF bd])
  also have "\<dots> \<longleftrightarrow> int ?B < int ?A * 2 ^ 32"
    by (simp only: of_nat_less_iff [symmetric, where 'a = int] of_nat_mult of_nat_power of_nat_numeral)
  also have "\<dots> \<longleftrightarrow> sint b < sint a * 2 ^ 32"
    unfolding iA iB by simp
  finally show "bytes_less (encodeInt64 b) (encodeInt32 a) \<longleftrightarrow> sint b < sint a * 2 ^ 32" .
qed

text \<open>
  The order \<^verbatim>\<open>TestLexKey_Int32VsInt64Sorting\<close> expects of its eight encoded keys: each
  is byte-wise below the next.
\<close>

lemma Int32VsInt64Sorting_test:
  "bytes_less (encodeInt32 (- 2147483648)) (encodeInt64 (- 9223372036854775808)) \<and>
   bytes_less (encodeInt64 (- 9223372036854775808)) (encodeInt32 (- 100000)) \<and>
   bytes_less (encodeInt32 (- 100000)) (encodeInt64 (- 1)) \<and>
   bytes_less (encodeInt64 (- 1)) (encodeInt32 0) \<and>
   bytes_less (encodeInt32 0) (encodeInt64 1) \<and>
   bytes_less (encodeInt64 1) (encodeInt32 100000) \<and>
   bytes_less (encodeInt32 100000) (encodeInt64 9223372036854775807)"
  by (simp add: encodeInt32_def encodeInt64_def make_bytes_def PutUint32_def PutUint64_def)

text \<open>
  C3, as the code has it. The 32-bit integer 1 is encoded in four bytes and the 64-bit
  integer 2 in eight; byte-wise the encoding of 1 is the greater one, though 1 < 2. At
  the first pair of the cross-width test the 32-bit minimum sorts before the 64-bit
  minimum, which is numerically smaller.
\<close>

theorem encodeInt32_encodeInt64_order_broken:
  "sint (1 :: 32 word) < sint (2 :: 64 word) \<and>
   encodeInt32 1 = [0x80, 0x00, 0x00, 0x01] \<and>
   encodeInt64 2 = [0x80, 0x00, 0x00, 0x00, 0x00, 0x00, 0x00, 0x02] \<and>
   bytes_less (encodeInt64 2) (encodeInt32 1) \<and>
   \<not> bytes_less (encodeInt32 1) (encodeInt64 2) \<and>
   sint (- 9223372036854775808 :: 64 word) < sint (- 2147483648 :: 32 word) \<and>
   bytes_less (encodeInt32 (- 2147483648)) (encodeInt64 (- 9223372036854775808))"
  by (simp add: encodeInt32_def encodeInt64_def make_bytes_def PutUint32_def PutUint64_def)

text \<open>
  C3, amended. Byte-wise, the four bytes of a 32-bit integer \<open>a\<close> are compared with the
  top four bytes of the eight of a 64-bit integer \<open>b\<close>, the shorter key first on a tie:
  the encoding of \<open>a\<close> is below that of \<open>b\<close> exactly when \<open>a * 2 ^ 32 \<le> b\<close>, and above it
  exactly when \<open>b < a * 2 ^ 32\<close>. This is the numeric order of \<open>a\<close> and \<open>b\<close> whenever one
  of them is negative and the other is not.
\<close>

theorem encodeInt32_encodeInt64_comparison:
  "(bytes_less (encodeInt32 a) (encodeInt64 b) \<longleftrightarrow> sint a * 2 ^ 32 \<le> sint b) \<and>
   (bytes_less (encodeInt64 b) (encodeInt32 a) \<longleftrightarrow> sint b < sint a * 2 ^ 32) \<and>
   (sint a < 0 \<and> 0 \<le> sint b \<longrightarrow> bytes_less (encodeInt32 a) (encodeInt64 b)) \<and>
   (sint b < 0 \<and> 0 \<le> sint a \<longrightarrow> bytes_less (encodeInt64 b) (encodeInt32 a))"
proof -
  have "sint a * 2 ^ 32 \<le> sint b" if "sint a < 0" "0 \<le> sint b"
  proof -
    have "sint a * 2 ^ 32 \<le> 0" using that(1) by (simp add: mult_le_0_iff)
    with that(2) show ?thesis by linarith
  qed
  moreover have "sint b < sint a * 2 ^ 32" if "sint b < 0" "0 \<le> sint a"
  proof -
    have "0 \<le> sint a * 2 ^ 32" using that(2) by simp
    with that(1) show ?thesis by linarith
  qed
  ultimately show ?thesis
    by (simp only: encodeInt32_vs_encodeInt64) blast
qed

theorem encodeInt32_encodeInt64_comparison_witness:
  "sint (- 100000 :: 32 word) < 0 \<and> 0 \<le> sint (1 :: 64 word) \<and>
   bytes_less (encodeInt32 (- 100000)) (encodeInt64 1) \<and>
   sint (- 1 :: 64 word) < 0 \<and> 0 \<le> sint (0 :: 32 word) \<and>
   bytes_less (encodeInt64 (- 1)) (encodeInt32 0)"
  using encodeInt32_encodeInt64_comparison [of "- 100000" 1]
    encodeInt32_encodeInt64_comparison [of 0 "- 1"] by simp

section \<open>Range scans\<close>

lemma bytes_less_irrefl: "\<not> bytes_less xs xs"
  by (induction xs) auto










section \<open>Floating point\<close>

lemma uint_and_mask_msb:
  fixes v :: "'a::len word"
  shows "uint (v AND mask (LENGTH('a) - Suc 0)) =
    (if uint v < 2 ^ (LENGTH('a) - Suc 0) then uint v else uint v - 2 ^ (LENGTH('a) - Suc 0))"
proof -
  let ?M = "2 ^ (LENGTH('a) - Suc 0) :: int"
  have b: "0 \<le> uint v" "uint v < 2 * ?M"
    using uint_lt2p [of v] by (simp_all flip: power_Suc)
  show ?thesis
  proof (cases "uint v < ?M")
    case True
    then have "uint v mod ?M = uint v"
      using b by (intro mod_pos_pos_trivial) simp_all
    with True show ?thesis by (simp add: uint_and_mask)
  next
    case False
    have "uint v mod ?M = (uint v - ?M + ?M) mod ?M" by simp
    also have "\<dots> = (uint v - ?M) mod ?M" by (rule mod_add_self2)
    also have "\<dots> = uint v - ?M"
      using False b by (intro mod_pos_pos_trivial) simp_all
    finally show ?thesis using False by (simp add: uint_and_mask)
  qed
qed

lemma f64_mag:
  "uint ((v :: 64 word) AND 0x7FFFFFFFFFFFFFFF) =
     (if uint v < 0x8000000000000000 then uint v else uint v - 0x8000000000000000)"
proof -
  have "(0x7FFFFFFFFFFFFFFF :: 64 word) = mask (LENGTH(64) - Suc 0)"
    by (simp add: mask_eq_exp_minus_1)
  then show ?thesis
    using uint_and_mask_msb [of v] by simp
qed

lemma f64_bit: "bit (v :: 64 word) 63 \<longleftrightarrow> 0x8000000000000000 \<le> uint v"
  using msb_iff_uint [of v] by simp

lemma f64_not: "uint (NOT (v :: 64 word)) = 0xFFFFFFFFFFFFFFFF - uint v"
  using uint_not [of v] by simp

lemma f64_xor:
  "uint ((v :: 64 word) XOR 0x8000000000000000) =
     (if uint v < 0x8000000000000000 then uint v + 0x8000000000000000
      else uint v - 0x8000000000000000)"
  using uint_xor_msb_cases [of v] by simp

lemma f32_mag:
  "uint ((v :: 32 word) AND 0x7FFFFFFF) =
     (if uint v < 0x80000000 then uint v else uint v - 0x80000000)"
proof -
  have "(0x7FFFFFFF :: 32 word) = mask (LENGTH(32) - Suc 0)"
    by (simp add: mask_eq_exp_minus_1)
  then show ?thesis
    using uint_and_mask_msb [of v] by simp
qed

lemma f32_bit: "bit (v :: 32 word) 31 \<longleftrightarrow> 0x80000000 \<le> uint v"
  using msb_iff_uint [of v] by simp

lemma f32_not: "uint (NOT (v :: 32 word)) = 0xFFFFFFFF - uint v"
  using uint_not [of v] by simp

lemma f32_xor:
  "uint ((v :: 32 word) XOR 0x80000000) =
     (if uint v < 0x80000000 then uint v + 0x80000000 else uint v - 0x80000000)"
  using uint_xor_msb_cases [of v] by simp

lemma IsNaN64_uint:
  "IsNaN64 v \<longleftrightarrow>
     (0x7FF0000000000000 < uint v \<and> uint v < 0x8000000000000000) \<or> 0xFFF0000000000000 < uint v"
  by (auto simp: IsNaN64_def word_less_def f64_mag)

lemma float64_num_uint:
  "float64_num v = (if uint v < 0x8000000000000000 then uint v else 0x8000000000000000 - uint v)"
  by (simp add: float64_num_def f64_bit f64_mag)

lemma float64_less_zero:
  "float64_less v 0 \<longleftrightarrow> \<not> IsNaN64 v \<and> 0x8000000000000000 < uint v"
  by (auto simp: float64_less_def float64_num_uint IsNaN64_uint)

lemma encodeFloat64_NaN:
  "IsNaN64 v \<Longrightarrow> encodeFloat64 v = [0x7F, 0xF8, 0x00, 0x00, 0x00, 0x00, 0x00, 0x01]"
  by (simp add: encodeFloat64_def make_bytes_def PutUint64_def)

lemma encodeFloat64_bits:
  "\<not> IsNaN64 v \<Longrightarrow>
   encodeFloat64 v = PutUint64 (replicate 8 0)
     (if 0x8000000000000000 < uint v then NOT v else v XOR 0x8000000000000000)"
  by (simp add: encodeFloat64_def make_bytes_def Float64bits_def float64_less_zero Let_def)

lemma uint_float64_bits:
  "uint (if 0x8000000000000000 < uint v then NOT v else (v :: 64 word) XOR 0x8000000000000000) =
     (if 0x8000000000000000 < uint v then 0xFFFFFFFFFFFFFFFF - uint v
      else if uint v < 0x8000000000000000 then uint v + 0x8000000000000000 else 0)"
  by (simp add: f64_not f64_xor)

lemma encodeFloat64_less:
  assumes "\<not> IsNaN64 a" "\<not> IsNaN64 b"
  shows "bytes_less (encodeFloat64 a) (encodeFloat64 b) \<longleftrightarrow>
    (if 0x8000000000000000 < uint a then 0xFFFFFFFFFFFFFFFF - uint a
      else if uint a < 0x8000000000000000 then uint a + 0x8000000000000000 else 0)
    < (if 0x8000000000000000 < uint b then 0xFFFFFFFFFFFFFFFF - uint b
      else if uint b < 0x8000000000000000 then uint b + 0x8000000000000000 else 0)"
  by (simp only: encodeFloat64_bits [OF assms(1)] encodeFloat64_bits [OF assms(2)]
      PutUint64_less word_less_def uint_float64_bits)

lemma encodeFloat64_order:
  assumes "\<not> IsNaN64 a" "\<not> IsNaN64 b" "a \<noteq> 0x8000000000000000" "b \<noteq> 0x8000000000000000"
  shows "bytes_less (encodeFloat64 a) (encodeFloat64 b) \<longleftrightarrow> float64_less a b"
proof -
  have ne: "uint a \<noteq> 0x8000000000000000" "uint b \<noteq> 0x8000000000000000"
    using assms(3,4) by (simp_all add: word_uint_eq_iff)
  have r: "0 \<le> uint a" "uint a < 0x10000000000000000" "0 \<le> uint b" "uint b < 0x10000000000000000"
    using uint_lt2p [of a] uint_lt2p [of b] by simp_all
  show ?thesis
    unfolding encodeFloat64_less [OF assms(1,2)] float64_less_def float64_num_uint
    using assms(1,2) ne r by (simp split: if_splits; intro conjI impI iffI; linarith)
qed

lemma IsNaN32_uint:
  "IsNaN32 v \<longleftrightarrow> (0x7F800000 < uint v \<and> uint v < 0x80000000) \<or> 0xFF800000 < uint v"
  by (auto simp: IsNaN32_def word_less_def f32_mag)

lemma float32_num_uint:
  "float32_num v = (if uint v < 0x80000000 then uint v else 0x80000000 - uint v)"
  by (simp add: float32_num_def f32_bit f32_mag)

lemma float32_less_zero:
  "float32_less v 0 \<longleftrightarrow> \<not> IsNaN32 v \<and> 0x80000000 < uint v"
  by (auto simp: float32_less_def float32_num_uint IsNaN32_uint)

lemma encodeFloat32_NaN:
  "IsNaN32 v \<Longrightarrow> encodeFloat32 v = [0x7F, 0xC0, 0x00, 0x01]"
  by (simp add: encodeFloat32_def make_bytes_def PutUint32_def)

lemma encodeFloat32_bits:
  "\<not> IsNaN32 v \<Longrightarrow>
   encodeFloat32 v = PutUint32 (replicate 4 0)
     (if 0x80000000 < uint v then NOT v else v XOR 0x80000000)"
  by (simp add: encodeFloat32_def make_bytes_def Float32bits_def float32_less_zero Let_def)

lemma uint_float32_bits:
  "uint (if 0x80000000 < uint v then NOT v else (v :: 32 word) XOR 0x80000000) =
     (if 0x80000000 < uint v then 0xFFFFFFFF - uint v
      else if uint v < 0x80000000 then uint v + 0x80000000 else 0)"
  by (simp add: f32_not f32_xor)

lemma NaN64_bytes: "[0x7F, 0xF8, 0x00, 0x00, 0x00, 0x00, 0x00, 0x01] = PutUint64 (replicate 8 0) 0x7FF8000000000001"
  by (simp add: PutUint64_def)

lemma NaN32_bytes: "[0x7F, 0xC0, 0x00, 0x01] = PutUint32 (replicate 4 0) 0x7FC00001"
  by (simp add: PutUint32_def)

lemma NaN64_below_sign_clear:
  assumes "IsNaN64 n" "\<not> IsNaN64 v" "\<not> bit v 63"
  shows "bytes_less (encodeFloat64 n) (encodeFloat64 v)"
proof -
  have "uint v < 0x8000000000000000" using assms(3) by (simp add: f64_bit)
  moreover have "0 \<le> uint v" by simp
  ultimately show ?thesis
    by (simp only: encodeFloat64_NaN [OF assms(1)] NaN64_bytes encodeFloat64_bits [OF assms(2)]
        PutUint64_less word_less_def uint_float64_bits) (simp add: add_pos_nonneg)
qed

lemma NaN64_above_negative:
  assumes "IsNaN64 n" "\<not> IsNaN64 v" "0x8007FFFFFFFFFFFE < v"
  shows "bytes_less (encodeFloat64 v) (encodeFloat64 n)"
proof -
  have "0x8007FFFFFFFFFFFE < uint v" using assms(3) by (simp add: word_less_def)
  then show ?thesis
    by (simp only: encodeFloat64_NaN [OF assms(1)] NaN64_bytes encodeFloat64_bits [OF assms(2)]
        PutUint64_less word_less_def uint_float64_bits) simp
qed

lemma NaN32_below_sign_clear:
  assumes "IsNaN32 n" "\<not> IsNaN32 v" "\<not> bit v 31"
  shows "bytes_less (encodeFloat32 n) (encodeFloat32 v)"
proof -
  have "uint v < 0x80000000" using assms(3) by (simp add: f32_bit)
  moreover have "0 \<le> uint v" by simp
  ultimately show ?thesis
    by (simp only: encodeFloat32_NaN [OF assms(1)] NaN32_bytes encodeFloat32_bits [OF assms(2)]
        PutUint32_less word_less_def uint_float32_bits) (simp add: add_pos_nonneg)
qed

lemma NaN32_above_negative:
  assumes "IsNaN32 n" "\<not> IsNaN32 v" "0x803FFFFE < v"
  shows "bytes_less (encodeFloat32 v) (encodeFloat32 n)"
proof -
  have "0x803FFFFE < uint v" using assms(3) by (simp add: word_less_def)
  then show ?thesis
    by (simp only: encodeFloat32_NaN [OF assms(1)] NaN32_bytes encodeFloat32_bits [OF assms(2)]
        PutUint32_less word_less_def uint_float32_bits) simp
qed

text \<open>The literal vectors of the repository's tests: 3.14 and -3.14 at both widths.\<close>

lemma encodeFloat_test_vectors:
  "encodeFloat64 0x40091EB851EB851F = [0xc0, 0x09, 0x1e, 0xb8, 0x51, 0xeb, 0x85, 0x1f] \<and>
   encodeFloat64 0xC0091EB851EB851F = [0x3f, 0xf6, 0xe1, 0x47, 0xae, 0x14, 0x7a, 0xe0] \<and>
   encodeFloat32 0x4048F5C3 = [0xc0, 0x48, 0xf5, 0xc3] \<and>
   encodeFloat32 0xC048F5C3 = [0x3f, 0xb7, 0x0a, 0x3c]"
  by (simp add: IsNaN64_uint IsNaN32_uint encodeFloat64_bits encodeFloat32_bits PutUint64_def PutUint32_def)

text \<open>
  The literal vectors of \<^verbatim>\<open>TestNewLexKey\<close> for integers, and its multi-part key
  \<^verbatim>\<open>("foo", 42, true)\<close>.
\<close>

lemma NewLexKey_test_vectors:
  "NewLexKey [PInt 123] = (Some [0x80, 0, 0, 0, 0, 0, 0, 0x7b], None) \<and>
   NewLexKey [PInt (- 123)] = (Some [0x7f, 0xff, 0xff, 0xff, 0xff, 0xff, 0xff, 0x85], None) \<and>
   NewLexKey [PInt32 (- 123)] = (Some [0x7f, 0xff, 0xff, 0x85], None) \<and>
   NewLexKey [PInt16 123] = (Some [0x80, 0x7b], None) \<and>
   NewLexKey [PString ''foo'', PInt 42, PBool True] =
     (Some [0x66, 0x6f, 0x6f, 0x00, 0x80, 0, 0, 0, 0, 0, 0, 0x2a, 0x00, 0x01], None)"
  by (simp add: NewLexKey_def go_append_def Seperator_def string_bytes_def encodeInt64_def
      encodeInt32_def encodeInt16_def make_bytes_def PutUint64_def PutUint32_def PutUint16_def)

text \<open>
  Apart from negative zero the encoding of a \<^verbatim>\<open>float64\<close> preserves the numeric order,
  in both directions.
\<close>

lemma encodeFloat64_order_apart_from_negative_zero:
  "\<not> IsNaN64 a \<Longrightarrow> \<not> IsNaN64 b \<Longrightarrow>
   a \<noteq> 0x8000000000000000 \<Longrightarrow> b \<noteq> 0x8000000000000000 \<Longrightarrow>
   float64_less a b \<longleftrightarrow> bytes_less (encodeFloat64 a) (encodeFloat64 b)"
  by (simp add: encodeFloat64_order)

text \<open>
  C1, at a failing input. -1.0 (bits 0xBFF0000000000000) is less than negative zero
  (bits 0x8000000000000000), and neither is NaN; negative zero does not pass the test
  \<^verbatim>\<open>v < 0\<close>, so only its sign bit is flipped and it is encoded as eight zero bytes,
  below the encoding of -1.0 and of every other value.
\<close>

theorem encodeFloat64_negative_zero_order_broken:
  "\<not> IsNaN64 0xBFF0000000000000 \<and> \<not> IsNaN64 0x8000000000000000 \<and>
   float64_less 0xBFF0000000000000 0x8000000000000000 \<and>
   encodeFloat64 0xBFF0000000000000 = [0x40, 0x0F, 0xFF, 0xFF, 0xFF, 0xFF, 0xFF, 0xFF] \<and>
   encodeFloat64 0x8000000000000000 = [0x00, 0x00, 0x00, 0x00, 0x00, 0x00, 0x00, 0x00] \<and>
   bytes_less (encodeFloat64 0x8000000000000000) (encodeFloat64 0xBFF0000000000000) \<and>
   \<not> bytes_less (encodeFloat64 0xBFF0000000000000) (encodeFloat64 0x8000000000000000)"
  by (simp add: IsNaN64_uint float64_less_def float64_num_uint encodeFloat64_bits PutUint64_def)

text \<open>
  C2, as the code has it. The canonical NaN pattern is stored as it is, with the sign
  bit clear, so the encoding of 1.0 (whose sign bit is flipped to 1) is not below it;
  the same at 32 bits.
\<close>

theorem encodeFloat_NaN_below_positive:
  "IsNaN64 0x7FF8000000000000 \<and> \<not> IsNaN64 0x3FF0000000000000 \<and>
   encodeFloat64 0x7FF8000000000000 = [0x7F, 0xF8, 0x00, 0x00, 0x00, 0x00, 0x00, 0x01] \<and>
   encodeFloat64 0x3FF0000000000000 = [0xBF, 0xF0, 0x00, 0x00, 0x00, 0x00, 0x00, 0x00] \<and>
   \<not> bytes_less (encodeFloat64 0x3FF0000000000000) (encodeFloat64 0x7FF8000000000000) \<and>
   IsNaN32 0x7FC00000 \<and> \<not> IsNaN32 0x3F800000 \<and>
   \<not> bytes_less (encodeFloat32 0x3F800000) (encodeFloat32 0x7FC00000)"
  by (simp add: IsNaN64_uint IsNaN32_uint encodeFloat64_NaN encodeFloat32_NaN
      encodeFloat64_bits encodeFloat32_bits PutUint64_def PutUint32_def)

text \<open>
  C2, amended. Every NaN is encoded as the fixed pattern 0x7FF8000000000001 (0x7FC00001
  at 32 bits). That encoding is byte-wise below the encoding of every value that is
  not NaN and has a clear sign bit (positive zero, the positive numbers and positive
  infinity), and above the encoding of every negative value that is not NaN and whose
  bit pattern exceeds 0x8007FFFFFFFFFFFE (0x803FFFFE at 32 bits): all negative normal
  numbers and negative infinity.
\<close>

theorem encodeFloat_NaN_canonical:
  "(IsNaN64 n \<longrightarrow> encodeFloat64 n = [0x7F, 0xF8, 0x00, 0x00, 0x00, 0x00, 0x00, 0x01]) \<and>
   (IsNaN32 m \<longrightarrow> encodeFloat32 m = [0x7F, 0xC0, 0x00, 0x01]) \<and>
   (IsNaN64 n \<and> \<not> IsNaN64 v \<and> \<not> bit v 63 \<longrightarrow>
      bytes_less (encodeFloat64 n) (encodeFloat64 v)) \<and>
   (IsNaN64 n \<and> \<not> IsNaN64 v \<and> 0x8007FFFFFFFFFFFE < v \<longrightarrow>
      bytes_less (encodeFloat64 v) (encodeFloat64 n)) \<and>
   (IsNaN32 m \<and> \<not> IsNaN32 w \<and> \<not> bit w 31 \<longrightarrow>
      bytes_less (encodeFloat32 m) (encodeFloat32 w)) \<and>
   (IsNaN32 m \<and> \<not> IsNaN32 w \<and> 0x803FFFFE < w \<longrightarrow>
      bytes_less (encodeFloat32 w) (encodeFloat32 m))"
  using encodeFloat64_NaN [of n] encodeFloat32_NaN [of m]
    NaN64_below_sign_clear [of n v] NaN64_above_negative [of n v]
    NaN32_below_sign_clear [of m w] NaN32_above_negative [of m w]
  by blast

theorem encodeFloat_NaN_canonical_witness:
  "encodeFloat64 0xFFF8000000000000 = [0x7F, 0xF8, 0x00, 0x00, 0x00, 0x00, 0x00, 0x01] \<and>
   encodeFloat32 0xFFC00000 = [0x7F, 0xC0, 0x00, 0x01] \<and>
   bytes_less (encodeFloat64 0xFFF8000000000000) (encodeFloat64 0x3FF0000000000000) \<and>
   bytes_less (encodeFloat64 0xFFF0000000000000) (encodeFloat64 0x7FF8000000000000) \<and>
   bytes_less (encodeFloat32 0xFFC00000) (encodeFloat32 0x3F800000) \<and>
   bytes_less (encodeFloat32 0xFF800000) (encodeFloat32 0x7FC00000)"
proof -
  have nan: "IsNaN64 0xFFF8000000000000" "IsNaN64 0x7FF8000000000000"
    "IsNaN32 0xFFC00000" "IsNaN32 0x7FC00000"
    by (simp_all add: IsNaN64_uint IsNaN32_uint)
  have num: "\<not> IsNaN64 0x3FF0000000000000" "\<not> IsNaN64 0xFFF0000000000000"
    "\<not> IsNaN32 0x3F800000" "\<not> IsNaN32 0xFF800000"
    by (simp_all add: IsNaN64_uint IsNaN32_uint)
  have pos: "\<not> bit (0x3FF0000000000000 :: 64 word) 63" "\<not> bit (0x3F800000 :: 32 word) 31"
    by (simp_all add: f64_bit f32_bit)
  have neg: "(0x8007FFFFFFFFFFFE :: 64 word) < 0xFFF0000000000000"
    "(0x803FFFFE :: 32 word) < 0xFF800000"
    by simp_all
  show ?thesis
    using encodeFloat_NaN_canonical
        [of "0xFFF8000000000000" "0xFFC00000" "0x3FF0000000000000" "0x3F800000"]
      encodeFloat_NaN_canonical
        [of "0x7FF8000000000000" "0x7FC00000" "0xFFF0000000000000" "0xFF800000"]
      nan num pos neg
    by blast
qed

end
